theory Spec2Isabelle
  imports Complex_Main
begin

section \<open>Column label codec (constants.ts)\<close>

text \<open>
  \<^verbatim>\<open>export const ALPHABET = 'ABCDEFGHIJKLMNOPQRSTUVWXYZ';\<close>
\<close>

definition ALPHABET :: string where
  "ALPHABET = ''ABCDEFGHIJKLMNOPQRSTUVWXYZ''"

text \<open>
  The step of the loop variable in \<^verbatim>\<open>getColumnLabel\<close>:
  \<^verbatim>\<open>i = Math.floor(i / 26) - 1\<close>. The index is a JavaScript number holding an
  integer; it is modelled as an unbounded \<open>int\<close>.
\<close>

definition label_step :: "int \<Rightarrow> int" where
  "label_step i = i div 26 - 1"

text \<open>
  \<^verbatim>\<open>
  let label = ''; let i = index;
  while (i >= 0) {
    label = ALPHABET[i % 26] + label;
    i = Math.floor(i / 26) - 1;
  }
  return label;
  \<close>
  The loop is a recursive function on the pair of loop variables \<open>(i, label)\<close>.
\<close>

function getColumnLabel_loop :: "int \<Rightarrow> string \<Rightarrow> string" where
  "getColumnLabel_loop i label =
     (if i \<ge> 0
      then getColumnLabel_loop (label_step i) (ALPHABET ! nat (i mod 26) # label)
      else label)"
  by pat_completeness auto
termination
  by (relation "measure (\<lambda>(i, label). nat (i + 1))") (auto simp: label_step_def)

declare getColumnLabel_loop.simps [simp del]

definition getColumnLabel :: "int \<Rightarrow> string" where
  "getColumnLabel index = getColumnLabel_loop index ''''"

text \<open>
  The spec's reading of a label: a numeral of the bijective base-26 system, whose digits
  \<open>A..Z\<close> stand for \<open>1..26\<close> (no digit stands for zero). \<open>bijectiveValue\<close>
  is the value of such a numeral, most significant digit first; \<open>decode\<close> is the
  inverse of the encoding the spec asks to be derivable.
\<close>

definition digitValue :: "char \<Rightarrow> int" where
  "digitValue c = int (of_char c) - 64"

definition bijectiveValue :: "string \<Rightarrow> int" where
  "bijectiveValue s = foldl (\<lambda>acc c. acc * 26 + digitValue c) 0 s"

definition decode :: "string \<Rightarrow> int" where
  "decode s = bijectiveValue s - 1"

section \<open>Tear geometry (components/TearEffect.tsx)\<close>

text \<open>
  JavaScript numbers are modelled as real numbers: the arithmetic is exact, and rounding of
  the floating-point operations is outside the model. \<^verbatim>\<open>Math.random()\<close> is a parameter
  \<open>rnd\<close>: \<open>rnd i\<close> is the value drawn in iteration \<open>i\<close> of the loop (one draw per
  iteration); nothing is assumed about it.

  \<^verbatim>\<open>
  const pointsCount = 80;
  for (let i = 0; i <= pointsCount; i++) {
      const x = i / pointsCount;
      const noise = (Math.sin(x * Math.PI * 4) * 8) + (Math.cos(x * Math.PI * 12) * 4)
                    + (Math.random() * 6);
      points.push(Math.max(2, Math.min(25, 12 + noise)));
  }
  \<close>
\<close>

definition pointsCount :: nat where
  "pointsCount = 80"

definition noise :: "(nat \<Rightarrow> real) \<Rightarrow> nat \<Rightarrow> real" where
  "noise rnd i =
     (let x = real i / real pointsCount
      in sin (x * pi * 4) * 8 + cos (x * pi * 12) * 4 + rnd i * 6)"

definition tearPoints :: "(nat \<Rightarrow> real) \<Rightarrow> real list" where
  "tearPoints rnd = map (\<lambda>i. max 2 (min 25 (12 + noise rnd i))) [0..<Suc pointsCount]"






section \<open>Data model (types.ts)\<close>

text \<open>
  \<^verbatim>\<open>export type CellValue = string | number | boolean | null;\<close>
  The type of numbers is a parameter \<open>'n\<close>. Strings are lists of 8-bit characters.
  A row is the list of its cells; a hole of a sparse array reads as \<^verbatim>\<open>undefined\<close>, which
  the validator treats exactly as \<^verbatim>\<open>null\<close>, so a hole is modelled as \<open>CNull\<close>.
\<close>

datatype 'n CellValue = CString string | CNumber 'n | CBoolean bool | CNull

type_synonym 'n RowData = "'n CellValue list"

datatype ColumnType = STRING | NUMBER | BOOLEAN | DATE

record ColumnSchema =
  index :: nat
  name :: string
  type :: ColumnType
  required :: bool

record ValidationError =
  rowIndex :: nat
  colIndex :: nat
  message :: string

section \<open>The JavaScript built-ins the validator calls\<close>

text \<open>
  What the built-ins do on numbers and on date strings is a parameter of the model:
  \<open>Number_toString n\<close> is \<^verbatim>\<open>String(n)\<close> for a number \<open>n\<close>, \<open>Number_isNaN n\<close> is
  \<^verbatim>\<open>isNaN(n)\<close>, and \<open>Date_parse_isNaN s\<close> is \<^verbatim>\<open>isNaN(Date.parse(s))\<close>, whose grammar
  beyond ISO-8601 is left to the implementation by the language standard.
\<close>

record 'n builtins =
  Number_toString :: "'n \<Rightarrow> string"
  Number_isNaN :: "'n \<Rightarrow> bool"
  Date_parse_isNaN :: "string \<Rightarrow> bool"

text \<open>
  White space as \<^verbatim>\<open>String.prototype.trim\<close> and \<^verbatim>\<open>Number(string)\<close> strip it, within
  the 8-bit range: TAB, LF, VT, FF, CR, SP and NBSP.
\<close>

definition isWhiteSpace :: "char \<Rightarrow> bool" where
  "isWhiteSpace c = (of_char c \<in> {9, 10, 11, 12, 13, 32, 160 :: nat})"

definition trim :: "string \<Rightarrow> string" where
  "trim s = rev (dropWhile isWhiteSpace (rev (dropWhile isWhiteSpace s)))"

text \<open>
  \<^verbatim>\<open>toLowerCase\<close> on the letters \<open>A..Z\<close>. The validator only compares the result with
  six words of lower-case ASCII letters and digits, and no other 8-bit character
  lower-cases to one of these.
\<close>

definition toLowerChar :: "char \<Rightarrow> char" where
  "toLowerChar c =
     (let n = of_char c :: nat in if 65 \<le> n \<and> n \<le> 90 then char_of (n + 32) else c)"

definition toLowerCase :: "string \<Rightarrow> string" where
  "toLowerCase s = map toLowerChar s"

text \<open>\<^verbatim>\<open>String(v)\<close> on a cell value.\<close>

fun String_of :: "'n builtins \<Rightarrow> 'n CellValue \<Rightarrow> string" where
  "String_of J (CString s) = s"
| "String_of J (CNumber n) = Number_toString J n"
| "String_of J (CBoolean b) = (if b then ''true'' else ''false'')"
| "String_of J CNull = ''null''"

text \<open>
  The grammar \<open>StringNumericLiteral\<close> of the language standard, which decides whether
  \<^verbatim>\<open>Number(s)\<close> is \<^verbatim>\<open>NaN\<close> for a string \<open>s\<close>: optional white space around either
  nothing (the value is 0), a signed decimal literal (digits with an optional fraction
  and exponent, or \<^verbatim>\<open>Infinity\<close>), or an unsigned binary, octal or hexadecimal integer
  literal.
\<close>

definition isDecimalDigit :: "char \<Rightarrow> bool" where
  "isDecimalDigit c = (let n = of_char c :: nat in 48 \<le> n \<and> n \<le> 57)"

definition isBinaryDigit :: "char \<Rightarrow> bool" where
  "isBinaryDigit c = (c = CHR ''0'' \<or> c = CHR ''1'')"

definition isOctalDigit :: "char \<Rightarrow> bool" where
  "isOctalDigit c = (let n = of_char c :: nat in 48 \<le> n \<and> n \<le> 55)"

definition isHexDigit :: "char \<Rightarrow> bool" where
  "isHexDigit c =
     (let n = of_char c :: nat
      in (48 \<le> n \<and> n \<le> 57) \<or> (65 \<le> n \<and> n \<le> 70) \<or> (97 \<le> n \<and> n \<le> 102))"

definition isDecimalDigits :: "string \<Rightarrow> bool" where
  "isDecimalDigits s = (s \<noteq> [] \<and> list_all isDecimalDigit s)"

fun isSignedInteger :: "string \<Rightarrow> bool" where
  "isSignedInteger [] = False"
| "isSignedInteger (c # r) =
     (if c = CHR ''+'' \<or> c = CHR ''-'' then isDecimalDigits r else isDecimalDigits (c # r))"

fun isExponentPart_opt :: "string \<Rightarrow> bool" where
  "isExponentPart_opt [] = True"
| "isExponentPart_opt (c # r) = ((c = CHR ''e'' \<or> c = CHR ''E'') \<and> isSignedInteger r)"

definition isStrUnsignedDecimalLiteral :: "string \<Rightarrow> bool" where
  "isStrUnsignedDecimalLiteral s =
     (s = ''Infinity'' \<or>
      (let intPart = takeWhile isDecimalDigit s; r = dropWhile isDecimalDigit s
       in if intPart \<noteq> []
          then (case r of
                  [] \<Rightarrow> True
                | c # r' \<Rightarrow>
                    if c = CHR ''.'' then isExponentPart_opt (dropWhile isDecimalDigit r')
                    else isExponentPart_opt r)
          else (case r of
                  [] \<Rightarrow> False
                | c # r' \<Rightarrow>
                    c = CHR ''.'' \<and> takeWhile isDecimalDigit r' \<noteq> []
                    \<and> isExponentPart_opt (dropWhile isDecimalDigit r'))))"

fun isStrDecimalLiteral :: "string \<Rightarrow> bool" where
  "isStrDecimalLiteral [] = False"
| "isStrDecimalLiteral (c # r) =
     (if c = CHR ''+'' \<or> c = CHR ''-'' then isStrUnsignedDecimalLiteral r
      else isStrUnsignedDecimalLiteral (c # r))"

fun isNonDecimalIntegerLiteral :: "string \<Rightarrow> bool" where
  "isNonDecimalIntegerLiteral (z # c # r) =
     (z = CHR ''0'' \<and> r \<noteq> [] \<and>
      ((c = CHR ''b'' \<or> c = CHR ''B'') \<and> list_all isBinaryDigit r \<or>
       (c = CHR ''o'' \<or> c = CHR ''O'') \<and> list_all isOctalDigit r \<or>
       (c = CHR ''x'' \<or> c = CHR ''X'') \<and> list_all isHexDigit r))"
| "isNonDecimalIntegerLiteral _ = False"

definition isStrNumericLiteral :: "string \<Rightarrow> bool" where
  "isStrNumericLiteral s = (isStrDecimalLiteral s \<or> isNonDecimalIntegerLiteral s)"

definition isStringNumericLiteral :: "string \<Rightarrow> bool" where
  "isStringNumericLiteral s = (trim s = [] \<or> isStrNumericLiteral (trim s))"

text \<open>
  \<^verbatim>\<open>isNaN(Number(cellValue))\<close>, where \<open>None\<close> is \<^verbatim>\<open>undefined\<close>: \<^verbatim>\<open>Number(undefined)\<close>
  is \<^verbatim>\<open>NaN\<close>, \<^verbatim>\<open>Number(null)\<close> is 0, \<^verbatim>\<open>Number(true)\<close> is 1 and \<^verbatim>\<open>Number(false)\<close>
  is 0.
\<close>

fun isNaN_Number :: "'n builtins \<Rightarrow> 'n CellValue option \<Rightarrow> bool" where
  "isNaN_Number J None = True"
| "isNaN_Number J (Some (CString s)) = (\<not> isStringNumericLiteral s)"
| "isNaN_Number J (Some (CNumber n)) = Number_isNaN J n"
| "isNaN_Number J (Some (CBoolean b)) = False"
| "isNaN_Number J (Some CNull) = False"

text \<open>The text a template literal \<^verbatim>\<open>${cellValue}\<close> inserts.\<close>

fun template :: "'n builtins \<Rightarrow> 'n CellValue option \<Rightarrow> string" where
  "template J None = ''undefined''"
| "template J (Some v) = String_of J v"

section \<open>Validator (services/excelService.ts)\<close>

text \<open>
  \<^verbatim>\<open>row[rule.index]\<close>: an index outside the row reads as \<^verbatim>\<open>undefined\<close> (\<open>None\<close>).
\<close>

definition readCell :: "'n RowData \<Rightarrow> nat \<Rightarrow> 'n CellValue option" where
  "readCell row i = (if i < length row then Some (row ! i) else None)"

text \<open>
  \<^verbatim>\<open>cellValue === undefined || cellValue === null ? '' : String(cellValue).trim()\<close>
\<close>

fun cellStr_of :: "'n builtins \<Rightarrow> 'n CellValue option \<Rightarrow> string" where
  "cellStr_of J None = []"
| "cellStr_of J (Some CNull) = []"
| "cellStr_of J (Some v) = trim (String_of J v)"

text \<open>The three messages; \<open>CHR 0x27\<close> is the single quote.\<close>

definition requiredError :: "nat \<Rightarrow> ColumnSchema \<Rightarrow> ValidationError" where
  "requiredError r rule =
     \<lparr>rowIndex = r, colIndex = index rule,
      message = ''Column '' @ [CHR 0x27] @ name rule @ [CHR 0x27]
                @ '' is required but was empty.''\<rparr>"

definition numberError ::
  "'n builtins \<Rightarrow> nat \<Rightarrow> ColumnSchema \<Rightarrow> 'n CellValue option \<Rightarrow> ValidationError" where
  "numberError J r rule cellValue =
     \<lparr>rowIndex = r, colIndex = index rule,
      message = ''Expected a Number, got '' @ [CHR 0x27] @ template J cellValue
                @ [CHR 0x27] @ ''.''\<rparr>"

definition booleanError ::
  "'n builtins \<Rightarrow> nat \<Rightarrow> ColumnSchema \<Rightarrow> 'n CellValue option \<Rightarrow> ValidationError" where
  "booleanError J r rule cellValue =
     \<lparr>rowIndex = r, colIndex = index rule,
      message = ''Expected Boolean (true/false), got '' @ [CHR 0x27] @ template J cellValue
                @ [CHR 0x27] @ ''.''\<rparr>"

definition dateError ::
  "'n builtins \<Rightarrow> nat \<Rightarrow> ColumnSchema \<Rightarrow> 'n CellValue option \<Rightarrow> ValidationError" where
  "dateError J r rule cellValue =
     \<lparr>rowIndex = r, colIndex = index rule,
      message = ''Expected a valid Date, got '' @ [CHR 0x27] @ template J cellValue
                @ [CHR 0x27] @ ''.''\<rparr>"

text \<open>
  The body of \<^verbatim>\<open>schema.forEach((rule) => { ... })\<close>. The array \<^verbatim>\<open>errors\<close> the source
  pushes to is passed in and returned.
\<close>

definition checkRule ::
  "'n builtins \<Rightarrow> nat \<Rightarrow> 'n RowData \<Rightarrow> ValidationError list \<Rightarrow> ColumnSchema
     \<Rightarrow> ValidationError list" where
  "checkRule J r row errors rule =
     (let cellValue = readCell row (index rule);
          cellStr = cellStr_of J cellValue
      in if required rule \<and> cellStr = [] then errors @ [requiredError r rule]
         else if cellStr = [] then errors
         else (case type rule of
                 NUMBER \<Rightarrow>
                   if isNaN_Number J cellValue then errors @ [numberError J r rule cellValue]
                   else errors
               | BOOLEAN \<Rightarrow>
                   if toLowerCase cellStr
                        \<notin> set [''true'', ''false'', ''1'', ''0'', ''yes'', ''no'']
                   then errors @ [booleanError J r rule cellValue]
                   else errors
               | DATE \<Rightarrow>
                   if Date_parse_isNaN J cellStr then errors @ [dateError J r rule cellValue]
                   else errors
               | STRING \<Rightarrow> errors))"

text \<open>
  The body of \<^verbatim>\<open>rows.forEach((row, rowIndex) => { ... })\<close>:
  \<^verbatim>\<open>if (row.length === 0 && schema.length > 0) return;\<close> and then the loop over the
  schema.
\<close>

definition validateRow ::
  "'n builtins \<Rightarrow> ColumnSchema list \<Rightarrow> ValidationError list \<Rightarrow> nat \<times> 'n RowData
     \<Rightarrow> ValidationError list" where
  "validateRow J schema errors p =
     (case p of (r, row) \<Rightarrow>
        if length row = 0 \<and> length schema > 0 then errors
        else foldl (checkRule J r row) errors schema)"

definition validateData ::
  "'n builtins \<Rightarrow> 'n RowData list \<Rightarrow> ColumnSchema list \<Rightarrow> ValidationError list" where
  "validateData J rows schema = foldl (validateRow J schema) [] (enumerate 0 rows)"

text \<open>
  Names for the parts of the output: the errors one rule adds for one row, the errors
  the rules of a list add for one row, and the errors of a run of rows whose first row
  has index \<open>k\<close>.
\<close>

definition ruleErrors ::
  "'n builtins \<Rightarrow> nat \<Rightarrow> 'n RowData \<Rightarrow> ColumnSchema \<Rightarrow> ValidationError list" where
  "ruleErrors J r row rule = checkRule J r row [] rule"

definition rulesErrors ::
  "'n builtins \<Rightarrow> nat \<Rightarrow> 'n RowData \<Rightarrow> ColumnSchema list \<Rightarrow> ValidationError list" where
  "rulesErrors J r row rules = foldl (checkRule J r row) [] rules"

definition rowsErrors ::
  "'n builtins \<Rightarrow> ColumnSchema list \<Rightarrow> nat \<Rightarrow> 'n RowData list \<Rightarrow> ValidationError list" where
  "rowsErrors J schema k rows = foldl (validateRow J schema) [] (enumerate k rows)"

section \<open>Error lookup (components/Grid.tsx)\<close>

text \<open>
  \<^verbatim>\<open>const getError = (r, c) => errors.find((e) => e.rowIndex === r && e.colIndex === c);\<close>
  and \<^verbatim>\<open>const isErrorCell = !!error;\<close>
\<close>

definition getError :: "ValidationError list \<Rightarrow> nat \<Rightarrow> nat \<Rightarrow> ValidationError option" where
  "getError errors r c = find (\<lambda>e. rowIndex e = r \<and> colIndex e = c) errors"

definition isErrorCell :: "ValidationError list \<Rightarrow> nat \<Rightarrow> nat \<Rightarrow> bool" where
  "isErrorCell errors r c = (getError errors r c \<noteq> None)"

section \<open>An instance of the built-ins and the sample data (constants.ts)\<close>

text \<open>
  For evaluating the validator on concrete inputs: numbers are integers, written in
  decimal as \<^verbatim>\<open>String\<close> writes them and never \<^verbatim>\<open>NaN\<close>; the dates accepted are
  those of the form \<^verbatim>\<open>dddd-dd-dd\<close>.
\<close>

fun decimalOfNat :: "nat \<Rightarrow> string" where
  "decimalOfNat n =
     (if n < 10 then [char_of (48 + n)] else decimalOfNat (n div 10) @ [char_of (48 + n mod 10)])"

declare decimalOfNat.simps [simp del]

definition decimalOfInt :: "int \<Rightarrow> string" where
  "decimalOfInt i = (if i < 0 then CHR ''-'' # decimalOfNat (nat (- i)) else decimalOfNat (nat i))"

definition isIsoDate :: "string \<Rightarrow> bool" where
  "isIsoDate s =
     (length s = 10 \<and> s ! 4 = CHR ''-'' \<and> s ! 7 = CHR ''-''
      \<and> list_all isDecimalDigit (take 4 s @ take 2 (drop 5 s) @ drop 8 s))"

definition intBuiltins :: "int builtins" where
  "intBuiltins =
     \<lparr>Number_toString = decimalOfInt, Number_isNaN = (\<lambda>n. False),
      Date_parse_isNaN = (\<lambda>s. \<not> isIsoDate s)\<rparr>"

definition INITIAL_SCHEMA :: "ColumnSchema list" where
  "INITIAL_SCHEMA =
     [\<lparr>index = 0, name = ''ID'', type = NUMBER, required = True\<rparr>,
      \<lparr>index = 1, name = ''Name'', type = STRING, required = True\<rparr>,
      \<lparr>index = 2, name = ''Age'', type = NUMBER, required = False\<rparr>,
      \<lparr>index = 3, name = ''Is Active'', type = BOOLEAN, required = True\<rparr>,
      \<lparr>index = 4, name = ''Join Date'', type = DATE, required = False\<rparr>]"

definition INITIAL_DATA :: "int RowData list" where
  "INITIAL_DATA =
     [[CNumber 101, CString ''Alice Johnson'', CNumber 28, CBoolean True, CString ''2023-01-15''],
      [CNumber 102, CString ''Bob Smith'', CString ''InvalidAge'', CBoolean False,
       CString ''2023-02-20''],
      [CNumber 103, CString [], CNumber 35, CBoolean True, CString ''2023-03-10''],
      [CNumber 104, CString ''Diana Prince'', CNumber 30, CBoolean True, CString ''2023-04-05'']]"

section \<open>The Number check in the spec's words\<close>

text \<open>
  Follows the spec's words (Validator, type check): the text "must parse as a numeric
  literal (standard decimal/integer/scientific forms)": an optional sign, then digits with
  an optional fraction and an optional exponent. It is the decimal literal of the grammar
  above without the word \<^verbatim>\<open>Infinity\<close>.
\<close>

definition spec_isNumericLiteral :: "string \<Rightarrow> bool" where
  "spec_isNumericLiteral s =
     (isStrDecimalLiteral s \<and> s \<notin> set [''Infinity'', ''+Infinity'', ''-Infinity''])"

section \<open>Proofs: column label codec\<close>

lemma loop_pos:
  "0 \<le> i \<Longrightarrow> getColumnLabel_loop i label
     = getColumnLabel_loop (label_step i) (ALPHABET ! nat (i mod 26) # label)"
  by (subst getColumnLabel_loop.simps) simp

lemma loop_neg: "\<not> 0 \<le> i \<Longrightarrow> getColumnLabel_loop i label = label"
  by (subst getColumnLabel_loop.simps) simp

lemma ALPHABET_nth: "n < 26 \<Longrightarrow> of_char (ALPHABET ! n) = (65 + n :: nat)"
proof -
  have "\<forall>n<26. of_char (ALPHABET ! n) = (65 + n :: nat)"
    by (simp add: ALPHABET_def All_less_Suc numeral_eq_Suc)
  then show "n < 26 \<Longrightarrow> of_char (ALPHABET ! n) = (65 + n :: nat)" by blast
qed

lemma digitValue_ALPHABET:
  assumes "0 \<le> i"
  shows "digitValue (ALPHABET ! nat (i mod 26)) = i mod 26 + 1"
proof -
  have "nat (i mod 26) < 26" by simp
  then have "of_char (ALPHABET ! nat (i mod 26)) = (65 + nat (i mod 26) :: nat)"
    by (rule ALPHABET_nth)
  then show ?thesis by (simp add: digitValue_def)
qed

lemma ALPHABET_nth_mem: "ALPHABET ! nat (i mod 26) \<in> set ALPHABET"
proof -
  have "nat (i mod 26) < length ALPHABET" by (simp add: ALPHABET_def)
  then show ?thesis by (rule nth_mem)
qed

lemma foldl_horner:
  "foldl (\<lambda>acc c. acc * 26 + digitValue c) a s
     = a * 26 ^ length s + foldl (\<lambda>acc c. acc * 26 + digitValue c) 0 s"
proof (induction s arbitrary: a)
  case Nil
  show ?case by simp
next
  case (Cons c s)
  let ?f = "\<lambda>acc c. acc * 26 + digitValue c"
  have "foldl ?f a (c # s) = foldl ?f (a * 26 + digitValue c) s" by simp
  also have "\<dots> = (a * 26 + digitValue c) * 26 ^ length s + foldl ?f 0 s"
    by (rule Cons.IH)
  also have "\<dots> = a * 26 ^ length (c # s) + (digitValue c * 26 ^ length s + foldl ?f 0 s)"
    by (simp only: distrib_right length_Cons power_Suc mult.assoc add.assoc)
  also have "digitValue c * 26 ^ length s + foldl ?f 0 s = foldl ?f (digitValue c) s"
    by (rule Cons.IH [symmetric])
  also have "foldl ?f (digitValue c) s = foldl ?f 0 (c # s)" by simp
  finally show ?case .
qed

lemma bijectiveValue_Cons:
  "bijectiveValue (c # s) = digitValue c * 26 ^ length s + bijectiveValue s"
  using foldl_horner [of "digitValue c" s] by (simp add: bijectiveValue_def)

text \<open>
  The invariant of the loop: with \<open>i\<close> still to encode and \<open>label\<close> already written, the
  finished label is the numeral of \<open>i + 1\<close> shifted left by the digits of \<open>label\<close>.
\<close>

lemma bijectiveValue_loop:
  "- 1 \<le> i \<Longrightarrow>
   bijectiveValue (getColumnLabel_loop i label)
     = (i + 1) * 26 ^ length label + bijectiveValue label"
proof (induction i label rule: getColumnLabel_loop.induct)
  case (1 i label)
  show ?case
  proof (cases "0 \<le> i")
    case True
    let ?c = "ALPHABET ! nat (i mod 26)"
    have step: "- 1 \<le> label_step i" using True by (simp add: label_step_def)
    have "bijectiveValue (getColumnLabel_loop i label)
            = bijectiveValue (getColumnLabel_loop (label_step i) (?c # label))"
      using True by (simp only: loop_pos)
    also have "\<dots> = (label_step i + 1) * 26 ^ length (?c # label) + bijectiveValue (?c # label)"
      using "1.IH" [OF True step] .
    also have "\<dots> = (i div 26) * 26 * 26 ^ length label
                        + (i mod 26 + 1) * 26 ^ length label + bijectiveValue label"
      using True by (simp add: label_step_def bijectiveValue_Cons digitValue_ALPHABET)
    also have "\<dots> = ((i div 26) * 26 + i mod 26 + 1) * 26 ^ length label + bijectiveValue label"
      by (simp only: distrib_right)
    also have "(i div 26) * 26 + i mod 26 = i" by simp
    finally show ?thesis .
  next
    case False
    with "1.prems" have "i = - 1" by simp
    then show ?thesis by (simp add: loop_neg)
  qed
qed

lemma bijectiveValue_getColumnLabel:
  "0 \<le> i \<Longrightarrow> bijectiveValue (getColumnLabel i) = i + 1"
  using bijectiveValue_loop [of i "[]"] by (simp add: getColumnLabel_def bijectiveValue_def)

lemma decode_getColumnLabel: "0 \<le> i \<Longrightarrow> decode (getColumnLabel i) = i"
  by (simp add: decode_def bijectiveValue_getColumnLabel)

lemma loop_chars: "set (getColumnLabel_loop i label) \<subseteq> set ALPHABET \<union> set label"
proof (induction i label rule: getColumnLabel_loop.induct)
  case (1 i label)
  show ?case
  proof (cases "0 \<le> i")
    case True
    have "set (getColumnLabel_loop i label)
            = set (getColumnLabel_loop (label_step i) (ALPHABET ! nat (i mod 26) # label))"
      using True by (simp only: loop_pos)
    also have "\<dots> \<subseteq> set ALPHABET \<union> set (ALPHABET ! nat (i mod 26) # label)"
      using "1.IH" [OF True] .
    also have "\<dots> \<subseteq> set ALPHABET \<union> set label"
      using ALPHABET_nth_mem [of i] by auto
    finally show ?thesis .
  next
    case False
    then show ?thesis by (simp add: loop_neg)
  qed
qed

lemma getColumnLabel_chars: "set (getColumnLabel i) \<subseteq> set ALPHABET"
  using loop_chars [of i "[]"] by (simp add: getColumnLabel_def)

text \<open>
  The loop runs exactly \<open>n\<close> times, where \<open>n\<close> is the first iterate of the step that is
  negative, and each run adds one character.
\<close>

lemma loop_iterations:
  "\<exists>n. (label_step ^^ n) i < 0 \<and> (\<forall>m<n. 0 \<le> (label_step ^^ m) i)
       \<and> length (getColumnLabel_loop i label) = length label + n"
proof (induction i label rule: getColumnLabel_loop.induct)
  case (1 i label)
  show ?case
  proof (cases "0 \<le> i")
    case True
    let ?l = "ALPHABET ! nat (i mod 26) # label"
    from "1.IH" [OF True] obtain n where
      neg: "(label_step ^^ n) (label_step i) < 0" and
      pos: "\<forall>m<n. 0 \<le> (label_step ^^ m) (label_step i)" and
      len: "length (getColumnLabel_loop (label_step i) ?l) = length ?l + n"
      by blast
    have "(label_step ^^ Suc n) i < 0"
      using neg by (simp add: funpow_swap1)
    moreover have "\<forall>m<Suc n. 0 \<le> (label_step ^^ m) i"
    proof (intro allI impI)
      fix m assume "m < Suc n"
      show "0 \<le> (label_step ^^ m) i"
      proof (cases m)
        case 0
        then show ?thesis using True by simp
      next
        case (Suc m')
        with \<open>m < Suc n\<close> have "m' < n" by simp
        with pos have "0 \<le> (label_step ^^ m') (label_step i)" by blast
        then show ?thesis using Suc by (simp add: funpow_swap1)
      qed
    qed
    moreover have "length (getColumnLabel_loop i label) = length label + Suc n"
      using True len by (simp add: loop_pos)
    ultimately show ?thesis by blast
  next
    case False
    then have "(label_step ^^ 0) i < 0 \<and> (\<forall>m<0. 0 \<le> (label_step ^^ m) i)
                 \<and> length (getColumnLabel_loop i label) = length label + 0"
      by (simp add: loop_neg)
    then show ?thesis by blast
  qed
qed

text \<open>
  C2. The labels of 0, 25, 26, 701 and 702 are A, Z, AA, ZZ and AAA; the label of a
  non-negative index \<open>i\<close> is the bijective base-26 numeral of \<open>i + 1\<close> over the digits
  \<open>A..Z\<close>, which is the sequence A, B, ..., Z, AA, AB, ...; the encoding is injective on the
  indices below 10000, and \<open>decode\<close> inverts it there.
\<close>

theorem getColumnLabel_codec:
  "getColumnLabel 0 = ''A'' \<and> getColumnLabel 25 = ''Z'' \<and> getColumnLabel 26 = ''AA''
   \<and> getColumnLabel 701 = ''ZZ'' \<and> getColumnLabel 702 = ''AAA''
   \<and> map getColumnLabel [0, 1, 2, 24, 25, 26, 27, 28]
       = [''A'', ''B'', ''C'', ''Y'', ''Z'', ''AA'', ''AB'', ''AC'']
   \<and> (\<forall>i\<ge>0. bijectiveValue (getColumnLabel i) = i + 1
              \<and> set (getColumnLabel i) \<subseteq> set ALPHABET)
   \<and> inj_on getColumnLabel {0..<10000}
   \<and> (\<forall>i\<in>{0..<10000}. decode (getColumnLabel i) = i)"
proof -
  have v: "getColumnLabel 0 = ''A''" "getColumnLabel 25 = ''Z''" "getColumnLabel 26 = ''AA''"
    "getColumnLabel 701 = ''ZZ''" "getColumnLabel 702 = ''AAA''"
    by code_simp+
  have s: "map getColumnLabel [0, 1, 2, 24, 25, 26, 27, 28]
             = [''A'', ''B'', ''C'', ''Y'', ''Z'', ''AA'', ''AB'', ''AC'']"
    by code_simp
  have b: "\<forall>i\<ge>0. bijectiveValue (getColumnLabel i) = i + 1
                   \<and> set (getColumnLabel i) \<subseteq> set ALPHABET"
    by (simp add: bijectiveValue_getColumnLabel getColumnLabel_chars)
  have d: "\<forall>i\<in>{0..<10000}. decode (getColumnLabel i) = i"
    by (simp add: decode_getColumnLabel)
  have "inj_on getColumnLabel {0..<10000}"
  proof (rule inj_onI)
    fix x y :: int
    assume x: "x \<in> {0..<10000}" and y: "y \<in> {0..<10000}"
      and eq: "getColumnLabel x = getColumnLabel y"
    from x have "x = decode (getColumnLabel x)" by (simp add: decode_getColumnLabel)
    also have "\<dots> = decode (getColumnLabel y)" by (simp only: eq)
    also from y have "\<dots> = y" by (simp add: decode_getColumnLabel)
    finally show "x = y" .
  qed
  with v s b d show ?thesis by (intro conjI)
qed

theorem getColumnLabel_codec_witness:
  "(9999::int) \<in> {0..<10000} \<and> decode (getColumnLabel 9999) = 9999
   \<and> (0::int) \<le> 9999 \<and> bijectiveValue (getColumnLabel 9999) = 9999 + 1"
proof -
  have m: "(9999::int) \<in> {0..<10000}" and p: "(0::int) \<le> 9999" by simp_all
  have d: "\<forall>i\<in>{0..<10000}. decode (getColumnLabel i) = i"
    by (rule getColumnLabel_codec [THEN conjunct2, THEN conjunct2, THEN conjunct2,
          THEN conjunct2, THEN conjunct2, THEN conjunct2, THEN conjunct2, THEN conjunct2])
  have b: "\<forall>i\<ge>0. bijectiveValue (getColumnLabel i) = i + 1
                \<and> set (getColumnLabel i) \<subseteq> set ALPHABET"
    by (rule getColumnLabel_codec [THEN conjunct2, THEN conjunct2, THEN conjunct2,
          THEN conjunct2, THEN conjunct2, THEN conjunct2, THEN conjunct1])
  from d m have "decode (getColumnLabel 9999) = 9999" by (rule bspec)
  moreover from b p have "bijectiveValue (getColumnLabel 9999) = 9999 + 1" by simp
  ultimately show ?thesis using m p by (intro conjI)
qed

text \<open>
  C10. For a non-negative index the loop of \<open>getColumnLabel\<close> ends: the step
  \<open>i \<mapsto> floor (i / 26) - 1\<close> makes the loop variable strictly smaller, some iterate
  \<open>n > 0\<close> of it is the first negative one, the loop body has then run \<open>n\<close> times and put
  one character in front of the label each time; the label returned is not empty and all
  its characters are among \<open>A..Z\<close>.
\<close>

theorem getColumnLabel_terminates:
  assumes "0 \<le> i"
  shows "label_step i < i
    \<and> (\<exists>n>0. (label_step ^^ n) i < 0 \<and> (\<forall>m<n. 0 \<le> (label_step ^^ m) i)
              \<and> length (getColumnLabel i) = n)
    \<and> getColumnLabel i \<noteq> []
    \<and> set (getColumnLabel i) \<subseteq> set ALPHABET"
proof -
  have dec: "label_step i < i" using assms by (simp add: label_step_def)
  from loop_iterations [of i "[]"] obtain n where
    neg: "(label_step ^^ n) i < 0" and pos: "\<forall>m<n. 0 \<le> (label_step ^^ m) i" and
    len: "length (getColumnLabel i) = n"
    by (auto simp: getColumnLabel_def)
  have "n \<noteq> 0" using neg assms by (cases n) simp_all
  then have n: "0 < n" by simp
  with len have "getColumnLabel i \<noteq> []" by auto
  with dec n neg pos len getColumnLabel_chars [of i] show ?thesis by blast
qed

theorem getColumnLabel_terminates_witness:
  "(0::int) \<le> 701 \<and> label_step 701 < 701 \<and> getColumnLabel 701 \<noteq> []
   \<and> set (getColumnLabel 701) \<subseteq> set ALPHABET \<and> getColumnLabel 701 = ''ZZ''"
proof -
  have p: "(0::int) \<le> 701" by simp
  note t = getColumnLabel_terminates [OF p]
  have a: "label_step 701 < 701" by (rule t [THEN conjunct1])
  have b: "getColumnLabel 701 \<noteq> []"
    by (rule t [THEN conjunct2, THEN conjunct2, THEN conjunct1])
  have c: "set (getColumnLabel 701) \<subseteq> set ALPHABET"
    by (rule t [THEN conjunct2, THEN conjunct2, THEN conjunct2])
  have e: "getColumnLabel 701 = ''ZZ''" by code_simp
  show ?thesis using p a b c e by (intro conjI)
qed

section \<open>Proofs: tear geometry\<close>

lemma length_tearPoints: "length (tearPoints rnd) = 81"
  by (simp add: tearPoints_def pointsCount_def)

lemma tearPoints_nth:
  assumes "i < length (tearPoints rnd)"
  shows "tearPoints rnd ! i = max 2 (min 25 (12 + noise rnd i))"
proof -
  from assms have "i < Suc pointsCount" by (simp add: tearPoints_def)
  then show ?thesis
    unfolding tearPoints_def by (simp only: nth_map length_upt diff_zero nth_upt add_0)
qed








text \<open>
  C5. A generated profile has 81 offsets, and each of them, whatever the random draws
  are, is at least 2 and at most 25, hence strictly between 0 and 100.
\<close>

theorem tearPoints_clamped:
  assumes "i < length (tearPoints rnd)"
  shows "2 \<le> tearPoints rnd ! i \<and> tearPoints rnd ! i \<le> 25
    \<and> 0 < tearPoints rnd ! i \<and> tearPoints rnd ! i < 100"
proof -
  have "tearPoints rnd ! i = max 2 (min 25 (12 + noise rnd i))"
    using assms by (rule tearPoints_nth)
  then show ?thesis by (auto simp: max_def min_def)
qed

theorem tearPoints_clamped_witness:
  "0 < length (tearPoints (\<lambda>_. 0)) \<and> tearPoints (\<lambda>_. 0) ! 0 = 16
   \<and> 2 \<le> tearPoints (\<lambda>_. 0) ! 0 \<and> tearPoints (\<lambda>_. 0) ! 0 \<le> 25"
proof -
  have l: "0 < length (tearPoints (\<lambda>_. 0))" by (simp add: length_tearPoints)
  note t = tearPoints_clamped [OF l]
  have a: "2 \<le> tearPoints (\<lambda>_. 0) ! 0" by (rule t [THEN conjunct1])
  have b: "tearPoints (\<lambda>_. 0) ! 0 \<le> 25" by (rule t [THEN conjunct2, THEN conjunct1])
  have "noise (\<lambda>_. 0) 0 = 4" by (simp add: noise_def)
  then have c: "tearPoints (\<lambda>_. 0) ! 0 = 16" by (simp add: tearPoints_nth [OF l])
  from l c a b show ?thesis by (intro conjI)
qed

section \<open>Proofs: the shape of the validator's output\<close>

lemma checkRule_append: "checkRule J r row errors rule = errors @ ruleErrors J r row rule"
  by (simp add: checkRule_def ruleErrors_def Let_def split: ColumnType.split)

lemma foldl_checkRule:
  "foldl (checkRule J r row) errors rules = errors @ concat (map (ruleErrors J r row) rules)"
proof (induction rules arbitrary: errors)
  case Nil
  show ?case by simp
next
  case (Cons rule rules)
  have "foldl (checkRule J r row) errors (rule # rules)
          = foldl (checkRule J r row) (checkRule J r row errors rule) rules" by simp
  also have "\<dots> = checkRule J r row errors rule @ concat (map (ruleErrors J r row) rules)"
    by (rule Cons.IH)
  also have "\<dots> = errors @ concat (map (ruleErrors J r row) (rule # rules))"
    by (simp add: checkRule_append [of J r row errors rule])
  finally show ?case .
qed

lemma rulesErrors_concat: "rulesErrors J r row rules = concat (map (ruleErrors J r row) rules)"
  by (simp add: rulesErrors_def foldl_checkRule)

lemma rulesErrors_split:
  "rulesErrors J r row (sc1 @ rule # sc2)
     = rulesErrors J r row sc1 @ ruleErrors J r row rule @ rulesErrors J r row sc2"
  by (simp add: rulesErrors_concat)

lemma validateRow_append:
  "validateRow J schema errors (r, row)
     = errors @ (if row = [] \<and> schema \<noteq> [] then [] else rulesErrors J r row schema)"
  by (simp add: validateRow_def foldl_checkRule rulesErrors_concat)

lemma foldl_validateRow:
  "foldl (validateRow J schema) errors (enumerate k rows)
     = errors @ rowsErrors J schema k rows"
proof (induction rows arbitrary: errors k)
  case Nil
  show ?case by (simp add: rowsErrors_def)
next
  case (Cons row rows)
  let ?e = "if row = [] \<and> schema \<noteq> [] then [] else rulesErrors J k row schema"
  have "foldl (validateRow J schema) errors (enumerate k (row # rows))
          = foldl (validateRow J schema) (errors @ ?e) (enumerate (Suc k) rows)"
    by (simp only: enumerate_simps foldl_Cons validateRow_append)
  also have "\<dots> = (errors @ ?e) @ rowsErrors J schema (Suc k) rows"
    by (rule Cons.IH)
  also have "\<dots> = errors @ (([] @ ?e) @ rowsErrors J schema (Suc k) rows)" by simp
  also have "([] @ ?e) @ rowsErrors J schema (Suc k) rows
               = foldl (validateRow J schema) ([] @ ?e) (enumerate (Suc k) rows)"
    by (rule Cons.IH [symmetric])
  also have "\<dots> = rowsErrors J schema k (row # rows)"
    unfolding rowsErrors_def by (simp only: enumerate_simps foldl_Cons validateRow_append)
  finally show ?case .
qed

lemma rowsErrors_Nil: "rowsErrors J schema k [] = []"
  by (simp add: rowsErrors_def)

lemma rowsErrors_Cons:
  "rowsErrors J schema k (row # rows)
     = (if row = [] \<and> schema \<noteq> [] then [] else rulesErrors J k row schema)
       @ rowsErrors J schema (Suc k) rows"
proof -
  have "rowsErrors J schema k (row # rows)
          = foldl (validateRow J schema) (validateRow J schema [] (k, row))
              (enumerate (Suc k) rows)"
    by (simp add: rowsErrors_def)
  also have "\<dots> = validateRow J schema [] (k, row) @ rowsErrors J schema (Suc k) rows"
    by (rule foldl_validateRow)
  finally show ?thesis by (simp add: validateRow_append)
qed

lemma rowsErrors_append:
  "rowsErrors J schema k (rs1 @ rs2)
     = rowsErrors J schema k rs1 @ rowsErrors J schema (k + length rs1) rs2"
proof (induction rs1 arbitrary: k)
  case Nil
  show ?case by (simp add: rowsErrors_Nil)
next
  case (Cons row rs1)
  show ?case by (simp add: rowsErrors_Cons Cons.IH)
qed

lemma validateData_rowsErrors: "validateData J rows schema = rowsErrors J schema 0 rows"
  by (simp add: validateData_def rowsErrors_def)

lemma validateData_split:
  "validateData J (rs1 @ row # rs2) schema
     = rowsErrors J schema 0 rs1
       @ (if row = [] \<and> schema \<noteq> [] then [] else rulesErrors J (length rs1) row schema)
       @ rowsErrors J schema (Suc (length rs1)) rs2"
  by (simp add: validateData_rowsErrors rowsErrors_append rowsErrors_Cons)

lemma rowsErrors_concat:
  "rowsErrors J schema k rows
     = concat (map (\<lambda>(r, row). if row = [] \<and> schema \<noteq> [] then []
                                 else concat (map (ruleErrors J r row) schema))
                   (enumerate k rows))"
  by (induction rows arbitrary: k)
     (simp_all add: rowsErrors_Nil rowsErrors_Cons rulesErrors_concat)

lemma ruleErrors_cases:
  "ruleErrors J r row rule = []
   \<or> ruleErrors J r row rule = [requiredError r rule]
   \<or> ruleErrors J r row rule = [numberError J r rule (readCell row (index rule))]
   \<or> ruleErrors J r row rule = [booleanError J r rule (readCell row (index rule))]
   \<or> ruleErrors J r row rule = [dateError J r rule (readCell row (index rule))]"
  by (simp add: ruleErrors_def checkRule_def Let_def split: ColumnType.split)

lemma ruleErrors_length: "length (ruleErrors J r row rule) \<le> 1"
  using ruleErrors_cases [of J r row rule] by auto

lemma ruleErrors_coords:
  "e \<in> set (ruleErrors J r row rule) \<Longrightarrow> rowIndex e = r \<and> colIndex e = index rule"
  using ruleErrors_cases [of J r row rule]
  by (auto simp: requiredError_def numberError_def booleanError_def dateError_def)

lemma rulesErrors_rowIndex: "e \<in> set (rulesErrors J r row rules) \<Longrightarrow> rowIndex e = r"
  by (auto simp: rulesErrors_concat dest: ruleErrors_coords)

lemma rowsErrors_lower: "e \<in> set (rowsErrors J schema k rows) \<Longrightarrow> k \<le> rowIndex e"
proof (induction rows arbitrary: k)
  case Nil
  then show ?case by (simp add: rowsErrors_Nil)
next
  case (Cons row rows)
  from Cons.prems have
    "e \<in> set (if row = [] \<and> schema \<noteq> [] then [] else rulesErrors J k row schema)
     \<or> e \<in> set (rowsErrors J schema (Suc k) rows)"
    by (simp add: rowsErrors_Cons)
  then show ?case
  proof
    assume "e \<in> set (if row = [] \<and> schema \<noteq> [] then [] else rulesErrors J k row schema)"
    then have "e \<in> set (rulesErrors J k row schema)" by (simp split: if_splits)
    then show ?thesis by (simp add: rulesErrors_rowIndex)
  next
    assume "e \<in> set (rowsErrors J schema (Suc k) rows)"
    then have "Suc k \<le> rowIndex e" by (rule Cons.IH)
    then show ?thesis by simp
  qed
qed

lemma rowsErrors_sorted: "sorted (map rowIndex (rowsErrors J schema k rows))"
proof (induction rows arbitrary: k)
  case Nil
  show ?case by (simp add: rowsErrors_Nil)
next
  case (Cons row rows)
  let ?e = "if row = [] \<and> schema \<noteq> [] then [] else rulesErrors J k row schema"
  have a: "\<forall>x\<in>set ?e. rowIndex x = k" by (simp add: rulesErrors_rowIndex)
  then have "map rowIndex ?e = replicate (length ?e) k"
    by (simp add: map_replicate_const [symmetric] cong: map_cong)
  then have s1: "sorted (map rowIndex ?e)" by (simp add: sorted_replicate)
  have s2: "sorted (map rowIndex (rowsErrors J schema (Suc k) rows))" by (rule Cons.IH)
  have "\<forall>x\<in>set ?e. \<forall>y\<in>set (rowsErrors J schema (Suc k) rows). rowIndex x \<le> rowIndex y"
  proof (intro ballI)
    fix x y
    assume "x \<in> set ?e" and y: "y \<in> set (rowsErrors J schema (Suc k) rows)"
    with a have "rowIndex x = k" by blast
    moreover from y have "Suc k \<le> rowIndex y" by (rule rowsErrors_lower)
    ultimately show "rowIndex x \<le> rowIndex y" by simp
  qed
  with s1 s2 show ?case by (simp add: rowsErrors_Cons sorted_append)
qed

lemma ruleErrors_subset:
  assumes "r < length rows" and "rows ! r \<noteq> []" and "rule \<in> set schema"
  shows "set (ruleErrors J r (rows ! r) rule) \<subseteq> set (validateData J rows schema)"
proof -
  have "rows = take r rows @ rows ! r # drop (Suc r) rows"
    using assms(1) by (rule id_take_nth_drop)
  then have "validateData J rows schema
      = validateData J (take r rows @ rows ! r # drop (Suc r) rows) schema" by simp
  also have "\<dots> = rowsErrors J schema 0 (take r rows)
       @ rulesErrors J (length (take r rows)) (rows ! r) schema
       @ rowsErrors J schema (Suc (length (take r rows))) (drop (Suc r) rows)"
    using assms(2) by (simp only: validateData_split if_False simp_thms)
  finally have "set (rulesErrors J r (rows ! r) schema) \<subseteq> set (validateData J rows schema)"
    using assms(1) by auto
  moreover have "set (ruleErrors J r (rows ! r) rule) \<subseteq> set (rulesErrors J r (rows ! r) schema)"
    using assms(3) by (auto simp: rulesErrors_concat)
  ultimately show ?thesis by blast
qed

section \<open>Proofs: the validator's policy\<close>

text \<open>
  C8. With a non-empty schema, a row of zero cells leaves the error list as it is: no rule
  is evaluated against it, and the output of the validator is the errors of the rows
  before it followed by the errors of the rows after it.
\<close>

theorem validateData_skips_empty_row:
  assumes "schema \<noteq> []"
  shows "validateRow J schema errors (r, []) = errors
    \<and> validateData J (rs1 @ [] # rs2) schema
        = rowsErrors J schema 0 rs1 @ rowsErrors J schema (Suc (length rs1)) rs2"
  using assms by (simp add: validateRow_def validateData_split)

theorem validateData_skips_empty_row_witness:
  "INITIAL_SCHEMA \<noteq> []
   \<and> validateData intBuiltins ([[CNumber 7, CNull]] @ [] # [[CNull, CString ''x'']]) INITIAL_SCHEMA
       = rowsErrors intBuiltins INITIAL_SCHEMA 0 [[CNumber 7, CNull]]
         @ rowsErrors intBuiltins INITIAL_SCHEMA (Suc (length [[CNumber 7, CNull :: int CellValue]]))
             [[CNull, CString ''x'']]
   \<and> map rowIndex
         (validateData intBuiltins ([[CNumber 7, CNull]] @ [] # [[CNull, CString ''x'']])
            INITIAL_SCHEMA)
       = [0, 0, 2, 2]"
proof -
  have h: "INITIAL_SCHEMA \<noteq> []" by (simp add: INITIAL_SCHEMA_def)
  note t = validateData_skips_empty_row [OF h, of intBuiltins]
  have "map rowIndex
         (validateData intBuiltins ([[CNumber 7, CNull]] @ [] # [[CNull, CString ''x'']])
            INITIAL_SCHEMA)
       = [0, 0, 2, 2]"
    by code_simp
  with h t [THEN conjunct2, of "[[CNumber 7, CNull]]" "[[CNull, CString ''x'']]"]
  show ?thesis by (intro conjI)
qed

text \<open>
  C6. The output is the concatenation, over the rows in input order, of the errors of
  each row, which are the concatenation, over the rules in schema order, of the errors
  of each rule for that row (none for a skipped row). Hence the row indices of the
  output never decrease; every rule adds at most one error for a row, at that row and at
  the rule's column; and the number of errors is the sum of these contributions, one
  summand for each position of the schema, so nothing is merged or dropped when two rules
  have the same index.
\<close>

theorem validateData_discovery_order:
  "validateData J rows schema
     = concat (map (\<lambda>(r, row). if row = [] \<and> schema \<noteq> [] then []
                                 else concat (map (ruleErrors J r row) schema))
                   (enumerate 0 rows))
   \<and> sorted (map rowIndex (validateData J rows schema))
   \<and> length (ruleErrors J r row rule) \<le> 1
   \<and> (\<forall>e\<in>set (ruleErrors J r row rule). rowIndex e = r \<and> colIndex e = index rule)
   \<and> length (validateData J rows schema)
       = sum_list (map (\<lambda>(r, row). if row = [] \<and> schema \<noteq> [] then 0
                                    else sum_list (map (\<lambda>rule. length (ruleErrors J r row rule))
                                                       schema))
                       (enumerate 0 rows))"
proof -
  have c: "validateData J rows schema
     = concat (map (\<lambda>(r, row). if row = [] \<and> schema \<noteq> [] then []
                                 else concat (map (ruleErrors J r row) schema))
                   (enumerate 0 rows))"
    by (simp only: validateData_rowsErrors rowsErrors_concat)
  have s: "sorted (map rowIndex (validateData J rows schema))"
    by (simp only: validateData_rowsErrors rowsErrors_sorted)
  have l: "length (ruleErrors J r row rule) \<le> 1" by (rule ruleErrors_length)
  have e: "\<forall>e\<in>set (ruleErrors J r row rule). rowIndex e = r \<and> colIndex e = index rule"
    using ruleErrors_coords by blast
  have n: "length (validateData J rows schema)
       = sum_list (map (\<lambda>(r, row). if row = [] \<and> schema \<noteq> [] then 0
                                    else sum_list (map (\<lambda>rule. length (ruleErrors J r row rule))
                                                       schema))
                       (enumerate 0 rows))"
    unfolding c length_concat map_map
    by (rule arg_cong [where f = sum_list], rule map_cong)
       (auto simp: length_concat comp_def)
  from c s l e n show ?thesis by (intro conjI)
qed

theorem validateData_discovery_order_witness:
  "map (\<lambda>e. (rowIndex e, colIndex e)) (validateData intBuiltins INITIAL_DATA INITIAL_SCHEMA)
     = [(1, 2), (2, 1)]
   \<and> sorted (map rowIndex (validateData intBuiltins INITIAL_DATA INITIAL_SCHEMA))
   \<and> numberError intBuiltins 1 (INITIAL_SCHEMA ! 2) (Some (CString ''InvalidAge''))
       \<in> set (ruleErrors intBuiltins 1 (INITIAL_DATA ! 1) (INITIAL_SCHEMA ! 2))
   \<and> rowIndex (numberError intBuiltins 1 (INITIAL_SCHEMA ! 2) (Some (CString ''InvalidAge''))) = 1
   \<and> colIndex (numberError intBuiltins 1 (INITIAL_SCHEMA ! 2) (Some (CString ''InvalidAge'')))
       = index (INITIAL_SCHEMA ! 2)
   \<and> length (validateData intBuiltins [[CNull]]
         [\<lparr>index = 0, name = ''ID'', type = NUMBER, required = True\<rparr>,
          \<lparr>index = 0, name = ''ID'', type = NUMBER, required = True\<rparr>]) = 2"
proof -
  let ?e = "numberError intBuiltins 1 (INITIAL_SCHEMA ! 2) (Some (CString ''InvalidAge''))"
  note t = validateData_discovery_order
    [of intBuiltins INITIAL_DATA INITIAL_SCHEMA 1 "INITIAL_DATA ! 1" "INITIAL_SCHEMA ! 2"]
  have v: "map (\<lambda>e. (rowIndex e, colIndex e))
             (validateData intBuiltins INITIAL_DATA INITIAL_SCHEMA) = [(1, 2), (2, 1)]"
    by code_simp
  have s: "sorted (map rowIndex (validateData intBuiltins INITIAL_DATA INITIAL_SCHEMA))"
    by (rule t [THEN conjunct2, THEN conjunct1])
  have m: "?e \<in> set (ruleErrors intBuiltins 1 (INITIAL_DATA ! 1) (INITIAL_SCHEMA ! 2))"
    by code_simp
  have "rowIndex ?e = 1 \<and> colIndex ?e = index (INITIAL_SCHEMA ! 2)"
    using t [THEN conjunct2, THEN conjunct2, THEN conjunct2, THEN conjunct1] m by (rule bspec)
  then have r: "rowIndex ?e = 1" and c: "colIndex ?e = index (INITIAL_SCHEMA ! 2)"
    by (rule conjunct1, rule conjunct2)
  have d: "length (validateData intBuiltins [[CNull]]
         [\<lparr>index = 0, name = ''ID'', type = NUMBER, required = True\<rparr>,
          \<lparr>index = 0, name = ''ID'', type = NUMBER, required = True\<rparr>]) = 2"
    by code_simp
  from v s m r c d show ?thesis by (intro conjI)
qed

text \<open>
  C4, as the code has it. For a row with at least one cell and a required rule whose
  cell text is empty, the rule adds exactly one error to the list, the required-message
  error at that row and at the rule's column, whatever the type of the rule is; in the
  output of the validator this one error stands between the errors of the earlier rules
  and those of the later rules of the same row. (A row of zero cells is skipped when the
  schema is not empty, so a required rule adds nothing for it.)
\<close>

theorem required_short_circuit:
  assumes "row \<noteq> []" and "required rule" and "cellStr_of J (readCell row (index rule)) = []"
  shows "checkRule J r row errors rule
      = errors @ [\<lparr>rowIndex = r, colIndex = index rule,
                   message = ''Column '' @ [CHR 0x27] @ name rule @ [CHR 0x27]
                             @ '' is required but was empty.''\<rparr>]
    \<and> validateData J (rs1 @ row # rs2) (sc1 @ rule # sc2)
      = rowsErrors J (sc1 @ rule # sc2) 0 rs1
        @ rulesErrors J (length rs1) row sc1
        @ [\<lparr>rowIndex = length rs1, colIndex = index rule,
             message = ''Column '' @ [CHR 0x27] @ name rule @ [CHR 0x27]
                       @ '' is required but was empty.''\<rparr>]
        @ rulesErrors J (length rs1) row sc2
        @ rowsErrors J (sc1 @ rule # sc2) (Suc (length rs1)) rs2"
proof -
  have a: "checkRule J r row errors rule = errors @ [requiredError r rule]" for r errors
    using assms(2,3) by (simp add: checkRule_def Let_def)
  then have "ruleErrors J (length rs1) row rule = [requiredError (length rs1) rule]"
    by (simp add: ruleErrors_def)
  then have "validateData J (rs1 @ row # rs2) (sc1 @ rule # sc2)
      = rowsErrors J (sc1 @ rule # sc2) 0 rs1
        @ rulesErrors J (length rs1) row sc1
        @ [requiredError (length rs1) rule]
        @ rulesErrors J (length rs1) row sc2
        @ rowsErrors J (sc1 @ rule # sc2) (Suc (length rs1)) rs2"
    using assms(1) by (simp add: validateData_split rulesErrors_split)
  with a show ?thesis by (simp add: requiredError_def)
qed

theorem required_short_circuit_witness:
  "[CNumber 103, CString [], CNumber 35 :: int CellValue] \<noteq> []
   \<and> required \<lparr>index = 1, name = ''Name'', type = NUMBER, required = True\<rparr>
   \<and> cellStr_of intBuiltins (readCell [CNumber 103, CString [], CNumber 35]
        (index \<lparr>index = 1, name = ''Name'', type = NUMBER, required = True\<rparr>)) = []
   \<and> checkRule intBuiltins 0 [CNumber 103, CString [], CNumber 35] []
        \<lparr>index = 1, name = ''Name'', type = NUMBER, required = True\<rparr>
      = [] @ [\<lparr>rowIndex = 0, colIndex = index \<lparr>index = 1, name = ''Name'', type = NUMBER, required = True\<rparr>,
           message = ''Column '' @ [CHR 0x27]
             @ name \<lparr>index = 1, name = ''Name'', type = NUMBER, required = True\<rparr>
             @ [CHR 0x27] @ '' is required but was empty.''\<rparr>]"
proof -
  let ?row = "[CNumber 103, CString [], CNumber 35 :: int CellValue]"
  let ?rule = "\<lparr>index = 1, name = ''Name'', type = NUMBER, required = True\<rparr>"
  have h1: "?row \<noteq> []" by simp
  have h2: "required ?rule" by simp
  have h3: "cellStr_of intBuiltins (readCell ?row (index ?rule)) = []"
    by (simp add: readCell_def trim_def)
  note t = required_short_circuit [OF h1 h2 h3, of 0 "[]", THEN conjunct1]
  from h1 h2 h3 t show ?thesis by (intro conjI)
qed

text \<open>
  The claim as it was stated, for every row, fails at the row of zero cells: its cell text
  for a required rule is empty, and the validator returns no error.
\<close>

theorem required_empty_row_counterexample:
  "required \<lparr>index = 0, name = ''ID'', type = NUMBER, required = True\<rparr>
   \<and> cellStr_of intBuiltins
        (readCell [] (index \<lparr>index = 0, name = ''ID'', type = NUMBER, required = True\<rparr>)) = []
   \<and> validateData intBuiltins [[]]
        [\<lparr>index = 0, name = ''ID'', type = NUMBER, required = True\<rparr>] = []"
  by (simp add: readCell_def validateData_def validateRow_def)

text \<open>
  C3, as the code has it. For a Number rule and a cell whose trimmed text is not empty,
  the rule adds exactly one error, with the message "Expected a Number, got '<value>'.",
  when \<^verbatim>\<open>Number(value)\<close> is \<^verbatim>\<open>NaN\<close>, and adds nothing otherwise; in the output of the
  validator this contribution stands between the errors of the earlier and of the later
  rules of the row. \<^verbatim>\<open>Number(value)\<close> is \<^verbatim>\<open>NaN\<close> for a text cell whose trimmed text is
  not a numeric string of the language (a signed decimal literal with optional fraction
  and exponent, \<^verbatim>\<open>Infinity\<close>, or a binary, octal or hexadecimal integer literal), for a
  number cell that is \<^verbatim>\<open>NaN\<close>, and never for a boolean cell.
\<close>

theorem number_check:
  assumes "type rule = NUMBER" and "readCell row (index rule) = Some v"
    and "cellStr_of J (Some v) \<noteq> []"
  shows "checkRule J r row errors rule
      = (if isNaN_Number J (Some v)
         then errors @ [\<lparr>rowIndex = r, colIndex = index rule,
                          message = ''Expected a Number, got '' @ [CHR 0x27] @ String_of J v
                                    @ [CHR 0x27] @ ''.''\<rparr>]
         else errors)
    \<and> validateData J (rs1 @ row # rs2) (sc1 @ rule # sc2)
      = rowsErrors J (sc1 @ rule # sc2) 0 rs1
        @ rulesErrors J (length rs1) row sc1
        @ (if isNaN_Number J (Some v)
           then [\<lparr>rowIndex = length rs1, colIndex = index rule,
                    message = ''Expected a Number, got '' @ [CHR 0x27] @ String_of J v
                              @ [CHR 0x27] @ ''.''\<rparr>]
           else [])
        @ rulesErrors J (length rs1) row sc2
        @ rowsErrors J (sc1 @ rule # sc2) (Suc (length rs1)) rs2
    \<and> isNaN_Number J (Some v)
      = (case v of
           CString s \<Rightarrow> \<not> isStrNumericLiteral (trim s)
         | CNumber n \<Rightarrow> Number_isNaN J n
         | CBoolean b \<Rightarrow> False
         | CNull \<Rightarrow> False)"
proof -
  have a: "checkRule J r row errors rule
      = (if isNaN_Number J (Some v) then errors @ [numberError J r rule (Some v)] else errors)"
    for r errors
    using assms by (simp add: checkRule_def Let_def)
  then have "ruleErrors J (length rs1) row rule
      = (if isNaN_Number J (Some v) then [numberError J (length rs1) rule (Some v)] else [])"
    by (simp add: ruleErrors_def)
  moreover have "row \<noteq> []" using assms(2) by (auto simp: readCell_def)
  ultimately have b: "validateData J (rs1 @ row # rs2) (sc1 @ rule # sc2)
      = rowsErrors J (sc1 @ rule # sc2) 0 rs1
        @ rulesErrors J (length rs1) row sc1
        @ (if isNaN_Number J (Some v) then [numberError J (length rs1) rule (Some v)] else [])
        @ rulesErrors J (length rs1) row sc2
        @ rowsErrors J (sc1 @ rule # sc2) (Suc (length rs1)) rs2"
    by (simp add: validateData_split rulesErrors_split)
  have c: "isNaN_Number J (Some v)
      = (case v of
           CString s \<Rightarrow> \<not> isStrNumericLiteral (trim s)
         | CNumber n \<Rightarrow> Number_isNaN J n
         | CBoolean b \<Rightarrow> False
         | CNull \<Rightarrow> False)"
    using assms(3) by (cases v) (simp_all add: isStringNumericLiteral_def)
  have "numberError J r rule (Some v)
      = \<lparr>rowIndex = r, colIndex = index rule,
         message = ''Expected a Number, got '' @ [CHR 0x27] @ String_of J v
                   @ [CHR 0x27] @ ''.''\<rparr>" for r
    by (simp add: numberError_def)
  with a b c show ?thesis by (simp only:)
qed

theorem number_check_witness:
  "type (INITIAL_SCHEMA ! 2) = NUMBER
   \<and> readCell (INITIAL_DATA ! 1) (index (INITIAL_SCHEMA ! 2)) = Some (CString ''InvalidAge'')
   \<and> cellStr_of intBuiltins (Some (CString ''InvalidAge'')) \<noteq> []
   \<and> isNaN_Number intBuiltins (Some (CString ''InvalidAge''))
   \<and> checkRule intBuiltins 1 (INITIAL_DATA ! 1) [] (INITIAL_SCHEMA ! 2)
       = [\<lparr>rowIndex = 1, colIndex = 2, message = ''Expected a Number, got ''
            @ [CHR 0x27] @ ''InvalidAge'' @ [CHR 0x27] @ ''.''\<rparr>]"
proof -
  have h1: "type (INITIAL_SCHEMA ! 2) = NUMBER" by (simp add: INITIAL_SCHEMA_def)
  have h2: "readCell (INITIAL_DATA ! 1) (index (INITIAL_SCHEMA ! 2))
              = Some (CString ''InvalidAge'')"
    by (simp add: INITIAL_SCHEMA_def INITIAL_DATA_def readCell_def)
  have h3: "cellStr_of intBuiltins (Some (CString ''InvalidAge'')) \<noteq> []"
    by (simp add: trim_def isWhiteSpace_def)
  have n: "isNaN_Number intBuiltins (Some (CString ''InvalidAge''))" by code_simp
  have i: "index (INITIAL_SCHEMA ! 2) = 2" by (simp add: INITIAL_SCHEMA_def)
  note t = number_check [OF h1 h2 h3, of 1 "[]", THEN conjunct1]
  from t n i have "checkRule intBuiltins 1 (INITIAL_DATA ! 1) [] (INITIAL_SCHEMA ! 2)
       = [\<lparr>rowIndex = 1, colIndex = 2, message = ''Expected a Number, got ''
            @ [CHR 0x27] @ ''InvalidAge'' @ [CHR 0x27] @ ''.''\<rparr>]"
    by simp
  with h1 h2 h3 n show ?thesis by (intro conjI)
qed

text \<open>
  The claim as it was stated, on the text of the cell, fails at the boolean cell \<open>true\<close>
  under a Number rule: its text \<open>true\<close> is not empty and is no numeric literal in the
  spec's words, and the validator returns no error.
\<close>

theorem number_check_boolean_counterexample:
  "type \<lparr>index = 0, name = ''Age'', type = NUMBER, required = False\<rparr> = NUMBER
   \<and> cellStr_of intBuiltins (readCell [CBoolean True]
        (index \<lparr>index = 0, name = ''Age'', type = NUMBER, required = False\<rparr>)) = ''true''
   \<and> \<not> spec_isNumericLiteral ''true''
   \<and> validateData intBuiltins [[CBoolean True]]
        [\<lparr>index = 0, name = ''Age'', type = NUMBER, required = False\<rparr>] = []"
proof -
  have a: "cellStr_of intBuiltins (readCell [CBoolean True]
        (index \<lparr>index = 0, name = ''Age'', type = NUMBER, required = False\<rparr>)) = ''true''"
    by code_simp
  have b: "\<not> spec_isNumericLiteral ''true''" by code_simp
  have c: "validateData intBuiltins [[CBoolean True]]
        [\<lparr>index = 0, name = ''Age'', type = NUMBER, required = False\<rparr>] = []"
    by code_simp
  from a b c show ?thesis by simp
qed

text \<open>
  C9. Every operation of the validator is total on cell values, so \<open>validateData\<close> is a
  total function whose only result is the list of errors. Reading a rule's cell at an
  index outside the row gives the absent value, its text is empty, and the rule then adds
  the required-error if it is required and nothing otherwise. A cell that fails the
  Number, Boolean or Date check of its rule yields the corresponding error as a member of
  the returned list.
\<close>

theorem validateData_total:
  "(length row \<le> index rule \<longrightarrow>
      readCell row (index rule) = None
      \<and> cellStr_of J (readCell row (index rule)) = []
      \<and> checkRule J r row errors rule
          = (if required rule then errors @ [requiredError r rule] else errors))
   \<and> (k < length rows \<and> rule \<in> set schema \<and> readCell (rows ! k) (index rule) = Some v
        \<and> cellStr_of J (Some v) \<noteq> [] \<longrightarrow>
      (type rule = NUMBER \<and> isNaN_Number J (Some v) \<longrightarrow>
         numberError J k rule (Some v) \<in> set (validateData J rows schema))
      \<and> (type rule = BOOLEAN
           \<and> toLowerCase (cellStr_of J (Some v))
               \<notin> set [''true'', ''false'', ''1'', ''0'', ''yes'', ''no''] \<longrightarrow>
         booleanError J k rule (Some v) \<in> set (validateData J rows schema))
      \<and> (type rule = DATE \<and> Date_parse_isNaN J (cellStr_of J (Some v)) \<longrightarrow>
         dateError J k rule (Some v) \<in> set (validateData J rows schema)))"
proof (intro conjI impI)
  assume "length row \<le> index rule"
  then show "readCell row (index rule) = None" by (simp add: readCell_def)
  then show "cellStr_of J (readCell row (index rule)) = []" by simp
  then show "checkRule J r row errors rule
          = (if required rule then errors @ [requiredError r rule] else errors)"
    by (simp add: checkRule_def Let_def)
next
  assume h: "k < length rows \<and> rule \<in> set schema
    \<and> readCell (rows ! k) (index rule) = Some v \<and> cellStr_of J (Some v) \<noteq> []"
  then have "rows ! k \<noteq> []" by (auto simp: readCell_def)
  with h have sub: "set (ruleErrors J k (rows ! k) rule) \<subseteq> set (validateData J rows schema)"
    by (simp add: ruleErrors_subset)
  {
    assume "type rule = NUMBER \<and> isNaN_Number J (Some v)"
    with h have "ruleErrors J k (rows ! k) rule = [numberError J k rule (Some v)]"
      by (simp add: ruleErrors_def checkRule_def Let_def)
    with sub show "numberError J k rule (Some v) \<in> set (validateData J rows schema)"
      by simp
  }
  {
    assume "type rule = BOOLEAN
      \<and> toLowerCase (cellStr_of J (Some v))
          \<notin> set [''true'', ''false'', ''1'', ''0'', ''yes'', ''no'']"
    with h have "ruleErrors J k (rows ! k) rule = [booleanError J k rule (Some v)]"
      by (simp add: ruleErrors_def checkRule_def Let_def)
    with sub show "booleanError J k rule (Some v) \<in> set (validateData J rows schema)"
      by simp
  }
  {
    assume "type rule = DATE \<and> Date_parse_isNaN J (cellStr_of J (Some v))"
    with h have "ruleErrors J k (rows ! k) rule = [dateError J k rule (Some v)]"
      by (simp add: ruleErrors_def checkRule_def Let_def)
    with sub show "dateError J k rule (Some v) \<in> set (validateData J rows schema)"
      by simp
  }
qed

theorem validateData_total_witness:
  "length [CNumber (5::int)] \<le> index (INITIAL_SCHEMA ! 3)
   \<and> readCell [CNumber (5::int)] (index (INITIAL_SCHEMA ! 3)) = None
   \<and> checkRule intBuiltins 0 [CNumber 5] [] (INITIAL_SCHEMA ! 3)
       = (if required (INITIAL_SCHEMA ! 3) then [] @ [requiredError 0 (INITIAL_SCHEMA ! 3)]
          else [])
   \<and> (1 < length INITIAL_DATA \<and> INITIAL_SCHEMA ! 2 \<in> set INITIAL_SCHEMA
      \<and> readCell (INITIAL_DATA ! 1) (index (INITIAL_SCHEMA ! 2)) = Some (CString ''InvalidAge'')
      \<and> cellStr_of intBuiltins (Some (CString ''InvalidAge'')) \<noteq> [])
   \<and> (type (INITIAL_SCHEMA ! 2) = NUMBER \<and> isNaN_Number intBuiltins (Some (CString ''InvalidAge'')))
   \<and> numberError intBuiltins 1 (INITIAL_SCHEMA ! 2) (Some (CString ''InvalidAge''))
       \<in> set (validateData intBuiltins INITIAL_DATA INITIAL_SCHEMA)"
proof -
  have h1: "length [CNumber (5::int)] \<le> index (INITIAL_SCHEMA ! 3)"
    by (simp add: INITIAL_SCHEMA_def)
  have h2: "1 < length INITIAL_DATA \<and> INITIAL_SCHEMA ! 2 \<in> set INITIAL_SCHEMA
      \<and> readCell (INITIAL_DATA ! 1) (index (INITIAL_SCHEMA ! 2)) = Some (CString ''InvalidAge'')
      \<and> cellStr_of intBuiltins (Some (CString ''InvalidAge'')) \<noteq> []"
    by (simp add: INITIAL_SCHEMA_def INITIAL_DATA_def readCell_def trim_def isWhiteSpace_def)
  have h3: "type (INITIAL_SCHEMA ! 2) = NUMBER
      \<and> isNaN_Number intBuiltins (Some (CString ''InvalidAge''))"
    by code_simp
  note a = validateData_total
    [where row = "[CNumber 5]" and rule = "INITIAL_SCHEMA ! 3" and J = intBuiltins and r = 0
       and errors = "[]",
     THEN conjunct1, THEN mp, OF h1]
  note b = validateData_total
    [where k = 1 and rows = INITIAL_DATA and rule = "INITIAL_SCHEMA ! 2"
       and schema = INITIAL_SCHEMA and v = "CString ''InvalidAge''" and J = intBuiltins,
     THEN conjunct2, THEN mp, OF h2, THEN conjunct1, THEN mp, OF h3]
  from h1 a [THEN conjunct1] a [THEN conjunct2, THEN conjunct2] h2 h3 b
  show ?thesis by - ((rule conjI, assumption)+)
qed

section \<open>Proofs: error lookup\<close>

text \<open>
  C7. For every error \<open>e\<close> of a list (in particular of the list the validator returns),
  the lookup at the coordinates of \<open>e\<close> reports an error as present and returns an error
  of the list with these coordinates, whose message is therefore the message of an error
  at that cell; for coordinates that no error of the list has, the lookup returns nothing
  and reports no error.
\<close>

theorem getError_consistent:
  "(e \<in> set errors \<longrightarrow>
      isErrorCell errors (rowIndex e) (colIndex e)
      \<and> (\<exists>e'. getError errors (rowIndex e) (colIndex e) = Some e'
               \<and> e' \<in> set errors \<and> rowIndex e' = rowIndex e \<and> colIndex e' = colIndex e
               \<and> message e' \<in> set (map message
                    (filter (\<lambda>x. rowIndex x = rowIndex e \<and> colIndex x = colIndex e) errors))))
   \<and> ((\<forall>x\<in>set errors. \<not> (rowIndex x = r \<and> colIndex x = c)) \<longrightarrow>
      getError errors r c = None \<and> \<not> isErrorCell errors r c)"
proof (intro conjI impI)
  assume mem: "e \<in> set errors"
  let ?P = "\<lambda>x. rowIndex x = rowIndex e \<and> colIndex x = colIndex e"
  from mem have "\<exists>x\<in>set errors. ?P x" by blast
  then have "find ?P errors \<noteq> None" by (auto simp: find_None_iff)
  then obtain e' where f: "find ?P errors = Some e'" by blast
  then have p: "?P e'" and m: "e' \<in> set errors"
    by (auto simp: find_Some_iff)
  from f show "isErrorCell errors (rowIndex e) (colIndex e)"
    by (simp add: isErrorCell_def getError_def)
  from p m have "message e' \<in> set (map message (filter ?P errors))" by auto
  with f p m show "\<exists>e'. getError errors (rowIndex e) (colIndex e) = Some e'
               \<and> e' \<in> set errors \<and> rowIndex e' = rowIndex e \<and> colIndex e' = colIndex e
               \<and> message e' \<in> set (map message (filter ?P errors))"
    unfolding getError_def by blast
next
  assume "\<forall>x\<in>set errors. \<not> (rowIndex x = r \<and> colIndex x = c)"
  then have "getError errors r c = None"
    unfolding getError_def find_None_iff by blast
  then show "getError errors r c = None" and "\<not> isErrorCell errors r c"
    by (simp_all add: isErrorCell_def)
qed

theorem getError_consistent_witness:
  "numberError intBuiltins 1 (INITIAL_SCHEMA ! 2) (Some (CString ''InvalidAge''))
     \<in> set (validateData intBuiltins INITIAL_DATA INITIAL_SCHEMA)
   \<and> isErrorCell (validateData intBuiltins INITIAL_DATA INITIAL_SCHEMA) 1 2
   \<and> (0, 0) \<notin> set (map (\<lambda>x. (rowIndex x, colIndex x))
                          (validateData intBuiltins INITIAL_DATA INITIAL_SCHEMA))
   \<and> getError (validateData intBuiltins INITIAL_DATA INITIAL_SCHEMA) 0 0 = None
   \<and> \<not> isErrorCell (validateData intBuiltins INITIAL_DATA INITIAL_SCHEMA) 0 0"
proof -
  let ?e = "numberError intBuiltins 1 (INITIAL_SCHEMA ! 2) (Some (CString ''InvalidAge''))"
  let ?errors = "validateData intBuiltins INITIAL_DATA INITIAL_SCHEMA"
  have m: "?e \<in> set ?errors" by code_simp
  have q: "(0, 0) \<notin> set (map (\<lambda>x. (rowIndex x, colIndex x)) ?errors)" by code_simp
  then have n: "\<forall>x\<in>set ?errors. \<not> (rowIndex x = 0 \<and> colIndex x = 0)" by force
  have r: "rowIndex ?e = 1" and c: "colIndex ?e = 2"
    by (simp_all add: numberError_def INITIAL_SCHEMA_def)
  note t = getError_consistent [where e = ?e and errors = ?errors and r = 0 and c = 0]
  have "isErrorCell ?errors (rowIndex ?e) (colIndex ?e)"
    by (rule t [THEN conjunct1, THEN mp, OF m, THEN conjunct1])
  then have p: "isErrorCell ?errors 1 2" by (simp only: r c)
  note a = t [THEN conjunct2, THEN mp, OF n]
  from m p q a [THEN conjunct1] a [THEN conjunct2]
  show ?thesis by - ((rule conjI, assumption)+)
qed

end
